theory Spec2Isabelle
  imports Main
begin

section \<open>Python strings\<close>

text \<open>
  Text is a \<^typ>\<open>string\<close>: a list of 8-bit code points. The operations below are the
  ones \<^verbatim>\<open>download.py\<close> calls on \<^verbatim>\<open>str\<close> values, written after the documented behaviour
  of CPython on code points below 256.
\<close>

text \<open>\<^verbatim>\<open>s.startswith(sub)\<close>\<close>

fun startswith :: "string \<Rightarrow> string \<Rightarrow> bool" where
  "startswith [] s = True"
| "startswith (p # ps) [] = False"
| "startswith (p # ps) (c # cs) = (p = c \<and> startswith ps cs)"

text \<open>\<^verbatim>\<open>sub in s\<close>\<close>

fun contains :: "string \<Rightarrow> string \<Rightarrow> bool" where
  "contains sub [] = (sub = [])"
| "contains sub (c # cs) = (startswith sub (c # cs) \<or> contains sub cs)"

text \<open>
  \<^verbatim>\<open>s.count(sub)\<close>: the number of non-overlapping occurrences, found from the left. For the
  empty pattern Python answers \<^verbatim>\<open>len(s) + 1\<close>.
\<close>

function count_str :: "string \<Rightarrow> string \<Rightarrow> nat" where
  "count_str sub s =
     (if sub = [] then length s + 1
      else (case s of
              [] \<Rightarrow> 0
            | c # cs \<Rightarrow>
                if startswith sub s then 1 + count_str sub (drop (length sub) s)
                else count_str sub cs))"
  by pat_completeness auto
termination
  by (relation "measure (\<lambda>(sub, s). length s)") auto

declare count_str.simps [simp del]

text \<open>
  The line boundaries of \<^verbatim>\<open>str.splitlines()\<close> below code point 256:
  LF, VT, FF, CR, FS, GS, RS and NEL. CR LF counts as one boundary.
\<close>

definition is_linebreak :: "char \<Rightarrow> bool" where
  "is_linebreak c = (c \<in> set [CHR 0x0A, CHR 0x0B, CHR 0x0C, CHR 0x0D,
                               CHR 0x1C, CHR 0x1D, CHR 0x1E, CHR 0x85])"

fun splitlines_from :: "string \<Rightarrow> string \<Rightarrow> string list" where
  "splitlines_from cur [] = (if cur = [] then [] else [rev cur])"
| "splitlines_from cur (c # cs) =
     (if c = CHR 0x0D \<and> startswith [CHR 0x0A] cs then rev cur # splitlines_from [] (tl cs)
      else if is_linebreak c then rev cur # splitlines_from [] cs
      else splitlines_from (c # cur) cs)"

definition splitlines :: "string \<Rightarrow> string list" where
  "splitlines s = splitlines_from [] s"

text \<open>
  \<^verbatim>\<open>s.split(sep)\<close> for a non-empty separator: cut at every occurrence of \<open>sep\<close>, found from
  the left without overlap; empty pieces are kept.
\<close>

function split_from :: "string \<Rightarrow> string \<Rightarrow> string \<Rightarrow> string list" where
  "split_from sep cur s =
     (case s of
        [] \<Rightarrow> [rev cur]
      | c # cs \<Rightarrow>
          if sep \<noteq> [] \<and> startswith sep s then rev cur # split_from sep [] (drop (length sep) s)
          else split_from sep (c # cur) cs)"
  by pat_completeness auto
termination
  by (relation "measure (\<lambda>(sep, cur, s). length s)") auto

declare split_from.simps [simp del]

definition split_str :: "string \<Rightarrow> string \<Rightarrow> string list" where
  "split_str sep s = split_from sep [] s"

text \<open>
  \<^verbatim>\<open>s.strip()\<close> removes leading and trailing whitespace; below code point 256 the
  whitespace characters are TAB, LF, VT, FF, CR, FS, GS, RS, US, space, NEL and NBSP.
\<close>

definition isspace :: "char \<Rightarrow> bool" where
  "isspace c = (c \<in> set [CHR 0x09, CHR 0x0A, CHR 0x0B, CHR 0x0C, CHR 0x0D,
                          CHR 0x1C, CHR 0x1D, CHR 0x1E, CHR 0x1F, CHR 0x20,
                          CHR 0x85, CHR 0xA0])"

definition strip :: "string \<Rightarrow> string" where
  "strip s = rev (dropWhile isspace (rev (dropWhile isspace s)))"

text \<open>
  \<^verbatim>\<open>re.sub('<[^>]+>', '', line)\<close>: every leftmost match of an opening angle bracket, one or
  more characters other than the closing bracket, and the closing bracket is deleted.
  \<open>after_tag cs\<close> is the text behind such a match when \<open>cs\<close> follows the opening bracket.
\<close>

definition after_tag :: "string \<Rightarrow> string option" where
  "after_tag cs =
     (case cs of
        [] \<Rightarrow> None
      | d # ds \<Rightarrow>
          if d = CHR ''>'' then None
          else (case dropWhile (\<lambda>x. x \<noteq> CHR ''>'') ds of
                  [] \<Rightarrow> None
                | g # rest \<Rightarrow> Some rest))"

lemma after_tag_shorter: "after_tag cs = Some rest \<Longrightarrow> length rest < length cs"
proof -
  assume a: "after_tag cs = Some rest"
  then obtain d ds where cs: "cs = d # ds"
    by (cases cs) (auto simp: after_tag_def)
  from a cs obtain g where "dropWhile (\<lambda>x. x \<noteq> CHR ''>'') ds = g # rest"
    by (auto simp: after_tag_def split: if_splits list.splits)
  then have "length rest < length (dropWhile (\<lambda>x. x \<noteq> CHR ''>'') ds)"
    by simp
  also have "\<dots> \<le> length ds"
    by (rule length_dropWhile_le)
  finally show ?thesis using cs by simp
qed

function sub_tags :: "string \<Rightarrow> string" where
  "sub_tags [] = []"
| "sub_tags (c # cs) =
     (if c = CHR ''<'' then
        (case after_tag cs of
           Some rest \<Rightarrow> sub_tags rest
         | None \<Rightarrow> c # sub_tags cs)
      else c # sub_tags cs)"
  by pat_completeness auto
termination
  by (relation "measure length") (auto dest: after_tag_shorter)


section \<open>Errors and frames\<close>

text \<open>
  The exceptions that \<^verbatim>\<open>download.py\<close> raises itself or lets escape from the library.
  A function that can raise returns \<open>py_error + 'a\<close>, with \<open>Inl\<close> for the exception.
\<close>

datatype py_error = TypeError string | ValueError | IndexError | KeyError

text \<open>
  The keys of \<^verbatim>\<open>datadict\<close> in \<^verbatim>\<open>_form_qc\<close>, in the order of the dictionary literal:
  \<^verbatim>\<open>'URL'\<close>, \<^verbatim>\<open>'Date'\<close>, \<^verbatim>\<open>'Issuer CIK'\<close>, \<^verbatim>\<open>'Issuer Name'\<close>, \<^verbatim>\<open>'Issuer Ticker'\<close>, \<^verbatim>\<open>'Owner CIK'\<close>,
  \<^verbatim>\<open>'Owner Name'\<close>, \<^verbatim>\<open>'Director'\<close>, \<^verbatim>\<open>'Officer'\<close>, \<^verbatim>\<open>'Ten % Owner'\<close>, \<^verbatim>\<open>'Officer Title'\<close>,
  \<^verbatim>\<open>'Transaction Date'\<close>, \<^verbatim>\<open>'Transaction Code'\<close>, \<^verbatim>\<open>'Number of Shares'\<close>, \<^verbatim>\<open>'Price per Share'\<close>,
  \<^verbatim>\<open>'Shares Owned Following Trans'\<close>, \<^verbatim>\<open>'Ownership Nature'\<close>.
\<close>

datatype column =
    URL | Date | Issuer_CIK | Issuer_Name | Issuer_Ticker | Owner_CIK | Owner_Name
  | Director | Officer | Ten_Pct_Owner | Officer_Title | Transaction_Date
  | Transaction_Code | Number_of_Shares | Price_per_Share
  | Shares_Owned_Following_Trans | Ownership_Nature

definition columns :: "column list" where
  "columns = [URL, Date, Issuer_CIK, Issuer_Name, Issuer_Ticker, Owner_CIK, Owner_Name,
              Director, Officer, Ten_Pct_Owner, Officer_Title, Transaction_Date,
              Transaction_Code, Number_of_Shares, Price_per_Share,
              Shares_Owned_Following_Trans, Ownership_Nature]"

text \<open>
  \<^verbatim>\<open>datadict\<close> maps every key to the list of values collected so far. The same type
  serves for the data frame built from it, whose columns all have one length.
\<close>

type_synonym frame = "column \<Rightarrow> string list"

text \<open>
  \<^verbatim>\<open>pd.DataFrame(datadict)\<close> on a dictionary of lists raises \<^verbatim>\<open>ValueError\<close> unless all the
  lists have the same length.
\<close>

definition DataFrame :: "frame \<Rightarrow> py_error + frame" where
  "DataFrame d =
     (if list_all (\<lambda>c. length (d c) = length (d URL)) columns then Inr d
      else Inl ValueError)"

section \<open>The filing extractor \<^verbatim>\<open>_form_qc\<close>\<close>

definition searchlist :: "string list" where
  "searchlist = [''<periodOfReport>'', ''<issuerCik>'', ''<issuerName>'',
                 ''<issuerTradingSymbol>'', ''<rptOwnerCik>'', ''<rptOwnerName>'',
                 ''<transactionDate>'', ''<transactionShares>'',
                 ''<transactionPricePerShare>'',
                 ''<sharesOwnedFollowingTransaction>'',
                 ''<directOrIndirectOwnership>'', ''<officerTitle>'',
                 ''<isTenPercentOwner>'']"

definition refstrings1 :: "string list" where
  "refstrings1 = [''<isDirector>1</isDirector>'', ''<isOfficer>1</isOfficer>'',
                  ''<isDirector>True</isDirector>'',
                  ''<isOfficer>True</isOfficer>'',
                  ''<isDirector>true</isDirector>'',
                  ''<isOfficer>true</isOfficer>'']"

definition refstrings2 :: "string list" where
  "refstrings2 = [''<transactionCode>S</transactionCode>'',
                  ''<transactionCode>P</transactionCode>'']"

text \<open>The condition of the \<^verbatim>\<open>if\<close> at line 234.\<close>

definition qualifies :: "string \<Rightarrow> bool" where
  "qualifies formtext =
     (list_ex (\<lambda>s. contains s formtext) refstrings1 \<and>
      list_ex (\<lambda>p. contains p formtext) refstrings2 \<and>
      count_str ''<reportingOwner>'' formtext = 1 \<and>
      count_str ''<nonDerivativeTransaction>'' formtext = 1 \<and>
      list_all (\<lambda>s. contains s formtext) searchlist)"

text \<open>
  The variable \<^verbatim>\<open>label\<close> holds \<^verbatim>\<open>None\<close>, a key of \<^verbatim>\<open>datadict\<close>, or the string \<^verbatim>\<open>'ERROR'\<close>,
  which is no key: \<^verbatim>\<open>datadict[label]\<close> raises \<^verbatim>\<open>KeyError\<close> for the first and the last.
\<close>

datatype label = Label_None | Label column | Label_ERROR

record scan_state =
  datadict :: frame
  nextline :: bool
  label :: label

text \<open>
  The chain of \<^verbatim>\<open>if '<tag>' in line and len(datadict['URL']) != len(datadict[key])\<close> tests of
  lines 254 to 307, in the order of the source. Every branch ends in \<^verbatim>\<open>continue\<close>, so the
  first test that holds decides the line. A \<open>Same_Line\<close> branch appends the stripped line
  to its column; a \<open>Next_Line\<close> branch sets \<^verbatim>\<open>nextline\<close> and \<^verbatim>\<open>label\<close>.
\<close>

datatype shape = Same_Line | Next_Line

definition branches :: "(string \<times> column \<times> shape) list" where
  "branches =
     [(''<periodOfReport>'', Date, Same_Line),
      (''<issuerCik>'', Issuer_CIK, Same_Line),
      (''<issuerName>'', Issuer_Name, Same_Line),
      (''<issuerTradingSymbol>'', Issuer_Ticker, Same_Line),
      (''<rptOwnerCik>'', Owner_CIK, Same_Line),
      (''<rptOwnerName>'', Owner_Name, Same_Line),
      (''<isDirector>'', Director, Same_Line),
      (''<isOfficer>'', Officer, Same_Line),
      (''<isTenPercentOwner>'', Ten_Pct_Owner, Same_Line),
      (''<officerTitle>'', Officer_Title, Same_Line),
      (''<transactionDate>'', Transaction_Date, Next_Line),
      (''<transactionCode>'', Transaction_Code, Same_Line),
      (''<transactionShares>'', Number_of_Shares, Next_Line),
      (''<transactionPricePerShare>'', Price_per_Share, Next_Line),
      (''<sharesOwnedFollowingTransaction>'', Shares_Owned_Following_Trans, Next_Line),
      (''<directOrIndirectOwnership>'', Ownership_Nature, Next_Line)]"

definition branch_taken :: "frame \<Rightarrow> string \<Rightarrow> string \<times> column \<times> shape \<Rightarrow> bool" where
  "branch_taken d line b =
     (case b of (tag, col, sh) \<Rightarrow> contains tag line \<and> length (d URL) \<noteq> length (d col))"

text \<open>\<^verbatim>\<open>re.sub('<[^>]+>', '', line).strip()\<close>\<close>

definition line_value :: "string \<Rightarrow> string" where
  "line_value line = strip (sub_tags line)"

text \<open>One turn of the \<^verbatim>\<open>for line in formtext\<close> loop.\<close>

definition scan_line :: "scan_state \<Rightarrow> string \<Rightarrow> py_error + scan_state" where
  "scan_line st line =
     (if nextline st then
        (case label st of
           Label col \<Rightarrow>
             Inr (st\<lparr>datadict := (datadict st)(col := datadict st col @ [line_value line]),
                     nextline := False, label := Label_ERROR\<rparr>)
         | Label_None \<Rightarrow> Inl KeyError
         | Label_ERROR \<Rightarrow> Inl KeyError)
      else
        (case find (branch_taken (datadict st) line) branches of
           None \<Rightarrow> Inr st
         | Some (tag, col, Same_Line) \<Rightarrow>
             Inr (st\<lparr>datadict := (datadict st)(col := datadict st col @ [line_value line])\<rparr>)
         | Some (tag, col, Next_Line) \<Rightarrow>
             Inr (st\<lparr>nextline := True, label := Label col\<rparr>)))"

fun scan_lines :: "scan_state \<Rightarrow> string list \<Rightarrow> py_error + scan_state" where
  "scan_lines st [] = Inr st"
| "scan_lines st (line # rest) =
     (case scan_line st line of
        Inl e \<Rightarrow> Inl e
      | Inr st' \<Rightarrow> scan_lines st' rest)"

text \<open>
  The state at the head of the loop: every list empty but \<^verbatim>\<open>datadict['URL']\<close>, which
  already holds the URL (line 244).
\<close>

definition scan_init :: "string \<Rightarrow> scan_state" where
  "scan_init url =
     \<lparr>datadict = (\<lambda>c. [])(URL := [url]), nextline = False, label = Label_None\<rparr>"

text \<open>\<^verbatim>\<open>list(filter(None, formtext.splitlines()))\<close>: the lines that are not empty.\<close>

definition form_lines :: "string \<Rightarrow> string list" where
  "form_lines formtext = filter (\<lambda>l. l \<noteq> []) (splitlines formtext)"

text \<open>
  \<^verbatim>\<open>_form_qc\<close>: \<open>Inr None\<close> is the return value \<^verbatim>\<open>None\<close>, \<open>Inr (Some df)\<close> a data frame, and
  \<open>Inl e\<close> an exception.
\<close>

definition form_qc :: "string \<Rightarrow> string \<Rightarrow> py_error + frame option" where
  "form_qc formtext url =
     (if qualifies formtext then
        (case scan_lines (scan_init url) (form_lines formtext) of
           Inl e \<Rightarrow> Inl e
         | Inr st \<Rightarrow>
             (case DataFrame (datadict st) of
                Inl e \<Rightarrow> Inl e
              | Inr df \<Rightarrow> Inr (Some df)))
      else Inr None)"

section \<open>The cleaning step \<^verbatim>\<open>_clean_download\<close>\<close>

text \<open>
  \<^verbatim>\<open>Series.replace(d)\<close> with a dictionary \<open>d\<close> of strings: a value equal to a key becomes
  the key's value, any other value stays.
\<close>

definition series_replace :: "(string \<times> string) list \<Rightarrow> string list \<Rightarrow> string list" where
  "series_replace d xs = map (\<lambda>v. case map_of d v of Some w \<Rightarrow> w | None \<Rightarrow> v) xs"

definition clean_download :: "frame \<Rightarrow> frame" where
  "clean_download df =
     (let df1 = df(Director := series_replace [(''0'', ''false''), (''1'', ''true'')] (df Director));
          df2 = df1(Officer := series_replace [(''0'', ''false''), (''1'', ''true'')] (df1 Officer))
      in df2)"

section \<open>Dates\<close>

text \<open>
  A date is its proleptic Gregorian ordinal, \<^verbatim>\<open>datetime.date.toordinal()\<close>: day 1 is Monday,
  1 January of year 1. The caller's date strings and the library's timestamps (which carry
  no time of day here) are such dates. \<^verbatim>\<open>weekday()\<close> counts from Monday, 0, to Sunday, 6.
\<close>

type_synonym date = int

definition weekday :: "date \<Rightarrow> int" where
  "weekday d = (d + 6) mod 7"

text \<open>
  Year, month and day of an ordinal, computed as CPython's \<^verbatim>\<open>_ord2ymd\<close> does, with its tables
  \<^verbatim>\<open>_DAYS_IN_MONTH\<close> and \<^verbatim>\<open>_DAYS_BEFORE_MONTH\<close> (index 0 is a placeholder). \<open>month_and_day\<close>
  is the second half of that function: month and day from the leap-year flag and the
  number of days before the date in its year.
\<close>

definition DAYS_IN_MONTH :: "int list" where
  "DAYS_IN_MONTH = [-1, 31, 28, 31, 30, 31, 30, 31, 31, 30, 31, 30, 31]"

definition DAYS_BEFORE_MONTH :: "int list" where
  "DAYS_BEFORE_MONTH = [-1, 0, 31, 59, 90, 120, 151, 181, 212, 243, 273, 304, 334]"

definition month_and_day :: "bool \<Rightarrow> int \<Rightarrow> int \<times> int" where
  "month_and_day leapyear n =
     (let month = (n + 50) div 32;
          preceding = DAYS_BEFORE_MONTH ! nat month + (if month > 2 \<and> leapyear then 1 else 0)
      in if preceding > n then
           (let month = month - 1;
                preceding = preceding -
                  (DAYS_IN_MONTH ! nat month + (if month = 2 \<and> leapyear then 1 else 0))
            in (month, n - preceding + 1))
         else (month, n - preceding + 1))"

definition ord2ymd :: "date \<Rightarrow> int \<times> int \<times> int" where
  "ord2ymd ordinal =
     (let n = ordinal - 1;
          n400 = n div 146097; n = n mod 146097;
          year = n400 * 400 + 1;
          n100 = n div 36524; n = n mod 36524;
          n4 = n div 1461; n = n mod 1461;
          n1 = n div 365; n = n mod 365;
          year = year + n100 * 100 + n4 * 4 + n1
      in if n1 = 4 \<or> n100 = 4 then (year - 1, 12, 31)
         else (case month_and_day (n1 = 3 \<and> (n4 \<noteq> 24 \<or> n100 = 3)) n of
                 (month, day) \<Rightarrow> (year, month, day)))"

definition year_of :: "date \<Rightarrow> int" where
  "year_of d = fst (ord2ymd d)"

definition month_of :: "date \<Rightarrow> int" where
  "month_of d = fst (snd (ord2ymd d))"

definition day_of :: "date \<Rightarrow> int" where
  "day_of d = snd (snd (ord2ymd d))"

text \<open>\<^verbatim>\<open>str(n)\<close> for an integer, and the zero-padded fields of \<^verbatim>\<open>strftime\<close>.\<close>

fun str_nat :: "nat \<Rightarrow> string" where
  "str_nat n =
     (if n < 10 then [''0123456789'' ! n]
      else str_nat (n div 10) @ [''0123456789'' ! (n mod 10)])"

declare str_nat.simps [simp del]

definition str_int :: "int \<Rightarrow> string" where
  "str_int i = (if i < 0 then CHR ''-'' # str_nat (nat (- i)) else str_nat (nat i))"

definition zfill :: "nat \<Rightarrow> string \<Rightarrow> string" where
  "zfill w s = replicate (w - length s) CHR ''0'' @ s"

text \<open>
  \<^verbatim>\<open>date.strftime('%Y')\<close> and \<^verbatim>\<open>date.strftime('%Y%m%d')\<close>. The years of a timestamp have four
  digits, so the year is its decimal numeral.
\<close>

definition strftime_Y :: "date \<Rightarrow> string" where
  "strftime_Y d = str_int (year_of d)"

definition strftime_Ymd :: "date \<Rightarrow> string" where
  "strftime_Ymd d =
     str_int (year_of d) @ zfill 2 (str_int (month_of d)) @ zfill 2 (str_int (day_of d))"

section \<open>The business-day calendar \<^verbatim>\<open>_date_list_generator\<close>\<close>

text \<open>
  \<^verbatim>\<open>pd.date_range(start, end)\<close> holds every day from \<open>start\<close> to \<open>end\<close>, and
  \<^verbatim>\<open>pd.bdate_range(start, end)\<close> those of them from Monday to Friday; both are empty when
  \<open>end\<close> lies before \<open>start\<close>.
\<close>

definition date_range :: "date \<Rightarrow> date \<Rightarrow> date list" where
  "date_range start end = [start..end]"

definition bdate_range :: "date \<Rightarrow> date \<Rightarrow> date list" where
  "bdate_range start end = filter (\<lambda>d. weekday d < 5) [start..end]"

text \<open>
  \<^verbatim>\<open>daterange.min()\<close> and \<^verbatim>\<open>daterange.max()\<close>; \<open>None\<close> is the value \<^verbatim>\<open>NaT\<close> of an empty index.
\<close>

definition index_min :: "date list \<Rightarrow> date option" where
  "index_min xs = (case xs of [] \<Rightarrow> None | x # r \<Rightarrow> Some (fold min r x))"

definition index_max :: "date list \<Rightarrow> date option" where
  "index_max xs = (case xs of [] \<Rightarrow> None | x # r \<Rightarrow> Some (fold max r x))"

text \<open>\<^verbatim>\<open>Series.unique()\<close>: the values in the order of their first appearance.\<close>

definition unique :: "date list \<Rightarrow> date list" where
  "unique xs = rev (remdups (rev xs))"

text \<open>
  The holiday calendar is a parameter: \<open>cal lo hi\<close> stands for
  \<^verbatim>\<open>USFederalHolidayCalendar().holidays(start=lo, end=hi)\<close>, the holidays from \<open>lo\<close> to
  \<open>hi\<close>, or the exception the library raises.
\<close>

type_synonym calendar = "date option \<Rightarrow> date option \<Rightarrow> py_error + date list"

text \<open>
  \<^verbatim>\<open>_date_list_generator\<close>. The parameter \<^verbatim>\<open>holidays\<close> is never read: line 137 assigns the
  calendar's answer to the same name when \<^verbatim>\<open>weekends\<close> is false, and the other path does
  not mention it.
\<close>

definition date_list_generator ::
    "calendar \<Rightarrow> date \<Rightarrow> date \<Rightarrow> bool \<Rightarrow> bool \<Rightarrow> py_error + date list" where
  "date_list_generator cal start end weekends holidays =
     (let daterange = (if weekends then date_range start end else bdate_range start end)
      in if \<not> weekends then
           (case cal (index_min daterange) (index_max daterange) of
              Inl e \<Rightarrow> Inl e
            | Inr holidays' \<Rightarrow>
                Inr (unique (filter (\<lambda>d. d \<notin> set holidays') daterange)))
         else Inr (unique daterange))"

section \<open>The index locator\<close>

text \<open>The element of the list comprehension of lines 35 to 38.\<close>

definition index_url :: "date \<Rightarrow> string" where
  "index_url date =
     ''https://www.sec.gov/Archives/edgar/daily-index/'' @
     strftime_Y date @ ''/QTR'' @ str_int ((month_of date - 1) div 3 + 1) @
     ''/company.'' @ strftime_Ymd date @ ''.idx''"

section \<open>The index parser \<^verbatim>\<open>_idx_to_dataframe\<close>\<close>

text \<open>
  A row of the index frame; \<open>None\<close> is a missing value. The frame is the list of its
  rows.
\<close>

record index_record =
  company_name :: "string option"
  form_type :: "string option"
  cik :: "string option"
  date_filed :: "string option"
  file_name :: "string option"
  idx_name :: "string option"

text \<open>\<^verbatim>\<open>list(filter(None, [x.strip() for x in y]))\<close> for \<^verbatim>\<open>y = line.split('   ')\<close>\<close>

definition row_tokens :: "string \<Rightarrow> string list" where
  "row_tokens line = filter (\<lambda>t. t \<noteq> []) (map strip (split_str ''   '' line))"

definition idx_rows :: "string \<Rightarrow> string \<Rightarrow> string list list" where
  "idx_rows idx idx_url = map (\<lambda>line. row_tokens line @ [idx_url]) (drop 11 (splitlines idx))"

text \<open>
  \<^verbatim>\<open>pd.DataFrame(rows, columns=[...six names...])\<close> on a list of lists: no rows give the empty
  frame; otherwise the widest row must have six entries (\<^verbatim>\<open>ValueError\<close> if not) and a
  shorter row is filled up with missing values.
\<close>

definition cell :: "string list \<Rightarrow> nat \<Rightarrow> string option" where
  "cell row i = (if i < length row then Some (row ! i) else None)"

definition to_index_record :: "string list \<Rightarrow> index_record" where
  "to_index_record row =
     \<lparr>company_name = cell row 0, form_type = cell row 1, cik = cell row 2,
      date_filed = cell row 3, file_name = cell row 4, idx_name = cell row 5\<rparr>"

definition DataFrame_rows :: "string list list \<Rightarrow> py_error + index_record list" where
  "DataFrame_rows rows =
     (if rows = [] then Inr []
      else if fold max (map length rows) 0 = 6 then Inr (map to_index_record rows)
      else Inl ValueError)"

definition idx_to_dataframe :: "string \<Rightarrow> string \<Rightarrow> py_error + index_record list" where
  "idx_to_dataframe idx idx_url = DataFrame_rows (idx_rows idx idx_url)"

section \<open>The bulk fetcher\<close>

text \<open>
  The network is a parameter. A request either raises (\<open>Transport_Error\<close>) or yields the
  text of the response. \<open>net n url\<close> is the answer to a request for \<open>url\<close> that is the
  \<open>n\<close>-th of the run, counted from 0; the state of the run is the log of the URLs requested
  so far. The worker pool is modelled by its result: \<^verbatim>\<open>pool.imap\<close> yields the results in the
  order of the URLs, and the requests are logged URL by URL.
\<close>

datatype response = Transport_Error | Body string

type_synonym network = "nat \<Rightarrow> string \<Rightarrow> response"

text \<open>
  \<^verbatim>\<open>_download_one_threaded\<close>. The loop has no bound, so that the function is partial: \<open>None\<close>
  means that it does not return. \<open>Some (None, log)\<close> is the return value \<^verbatim>\<open>None\<close>.
\<close>

partial_function (option) download_one_threaded ::
    "network \<Rightarrow> string \<Rightarrow> string list \<Rightarrow> (string option \<times> string list) option" where
  "download_one_threaded net url log =
     (case net (length log) url of
        Transport_Error \<Rightarrow> Some (None, log @ [url])
      | Body formtext \<Rightarrow>
          if contains ''Request Rate Threshold Exceeded'' formtext
          then download_one_threaded net url (log @ [url])
          else if contains ''AccessDenied'' formtext then Some (None, log @ [url])
          else Some (Some formtext, log @ [url]))"

declare download_one_threaded.simps [code]

text \<open>\<^verbatim>\<open>list(pool.imap(_download_one_threaded, urls))\<close>\<close>

fun imap_download ::
    "network \<Rightarrow> string list \<Rightarrow> string list \<Rightarrow> (string option list \<times> string list) option" where
  "imap_download net [] log = Some ([], log)"
| "imap_download net (url # urls) log =
     (case download_one_threaded net url log of
        None \<Rightarrow> None
      | Some (result, log1) \<Rightarrow>
          (case imap_download net urls log1 of
             None \<Rightarrow> None
           | Some (results, log2) \<Rightarrow> Some (result # results, log2)))"

text \<open>
  \<^verbatim>\<open>_download_thread\<close>: the pairs \<^verbatim>\<open>(text, url)\<close> of \<^verbatim>\<open>zip(results, urls)\<close> whose text is not
  \<^verbatim>\<open>None\<close>.
\<close>

definition download_thread ::
    "network \<Rightarrow> string list \<Rightarrow> string list \<Rightarrow> ((string \<times> string) list \<times> string list) option" where
  "download_thread net urls log =
     (case imap_download net urls log of
        None \<Rightarrow> None
      | Some (results, log1) \<Rightarrow>
          Some (concat (map (\<lambda>x. case fst x of None \<Rightarrow> [] | Some text \<Rightarrow> [(text, snd x)])
                         (zip results urls)), log1))"

section \<open>The pipeline \<^verbatim>\<open>download\<close>\<close>












section \<open>Documents given line by line\<close>

text \<open>
  \<open>unlines ls\<close> is the text whose lines are \<open>ls\<close>, each closed by a line feed
  (\<^verbatim>\<open>''.join(l + '\n' for l in ls)\<close>). Concrete documents are written this way; the string
  operations on such a text reduce to its lines.
\<close>

definition unlines :: "string list \<Rightarrow> string" where
  "unlines ls = concat (map (\<lambda>l. l @ [CHR 0x0A]) ls)"

section \<open>The scan of \<^verbatim>\<open>_form_qc\<close>: what holds at every line\<close>

text \<open>The columns and tags of the \<open>Next_Line\<close> branches, and the tags tested before a given one.\<close>

definition next_line_columns :: "column list" where
  "next_line_columns = map (\<lambda>(tag, col, sh). col) (filter (\<lambda>(tag, col, sh). sh = Next_Line) branches)"

definition next_line_tags :: "string list" where
  "next_line_tags = map (\<lambda>(tag, col, sh). tag) (filter (\<lambda>(tag, col, sh). sh = Next_Line) branches)"

definition tags_before :: "string \<Rightarrow> string list" where
  "tags_before t = map fst (takeWhile (\<lambda>b. fst b \<noteq> t) branches)"

text \<open>
  What holds at the head of every turn of the loop: one URL, at most one value in every
  column, and a pending \<^verbatim>\<open>nextline\<close> names a next-line column that is still empty.
\<close>

definition scan_inv :: "scan_state \<Rightarrow> bool" where
  "scan_inv st =
     (length (datadict st URL) = 1 \<and> (\<forall>c. length (datadict st c) \<le> 1) \<and>
      (nextline st \<longrightarrow> (\<exists>c. label st = Label c \<and> c \<in> set next_line_columns \<and> datadict st c = [])))"

section \<open>The first occurrence of a tag, in the words of the specification\<close>

text \<open>
  The value that the sentence of the specification speaks of: the text between the first
  occurrence of a tag in the document and the next opening bracket, stripped.
\<close>

fun after_first :: "string \<Rightarrow> string \<Rightarrow> string option" where
  "after_first sub [] = (if sub = [] then Some [] else None)"
| "after_first sub (c # cs) =
     (if startswith sub (c # cs) then Some (drop (length sub) (c # cs))
      else after_first sub cs)"

definition spec_first_occurrence_value :: "string \<Rightarrow> string \<Rightarrow> string option" where
  "spec_first_occurrence_value tag doc =
     map_option (\<lambda>r. strip (takeWhile (\<lambda>x. x \<noteq> CHR ''<'') r)) (after_first tag doc)"

section \<open>Concrete inputs\<close>

text \<open>What a call of \<^verbatim>\<open>_form_qc\<close> left in one column of its frame.\<close>

definition recorded :: "column \<Rightarrow> py_error + frame option \<Rightarrow> py_error + string list option" where
  "recorded c r =
     (case r of
        Inl e \<Rightarrow> Inl e
      | Inr None \<Rightarrow> Inr None
      | Inr (Some df) \<Rightarrow> Inr (Some (df c)))"


text \<open>A filing that passes every test of the gate and names its transaction code twice.\<close>

definition filing_lines :: "string list" where
  "filing_lines =
     [''<periodOfReport>2021-01-04</periodOfReport>'',
      ''<issuerCik>1</issuerCik>'',
      ''<issuerName>ACME</issuerName>'',
      ''<issuerTradingSymbol>AC</issuerTradingSymbol>'',
      ''<reportingOwner>'',
      ''<rptOwnerCik>2</rptOwnerCik>'',
      ''<rptOwnerName>DOE</rptOwnerName>'',
      ''<isDirector>1</isDirector>'',
      ''<isOfficer>0</isOfficer>'',
      ''<isTenPercentOwner>0</isTenPercentOwner>'',
      ''<officerTitle>CEO</officerTitle>'',
      ''<nonDerivativeTransaction>'',
      ''<transactionDate>'',
      ''<value>2021-01-04</value>'',
      ''<transactionCode>S</transactionCode>'',
      ''<transactionShares>'',
      ''<value>10</value>'',
      ''<transactionPricePerShare>'',
      ''<value>5</value>'',
      ''<sharesOwnedFollowingTransaction>'',
      ''<value>90</value>'',
      ''<directOrIndirectOwnership>'',
      ''<value>D</value>'',
      ''<transactionCode>P</transactionCode>'']"

text \<open>
  A filing that passes the gate, with its first \<^verbatim>\<open><transactionCode>\<close> on the line behind
  \<^verbatim>\<open><transactionDate>\<close>.
\<close>

definition swallowed_code_lines :: "string list" where
  "swallowed_code_lines =
     [''<periodOfReport>2021-01-04</periodOfReport>'',
      ''<issuerCik>1</issuerCik>'',
      ''<issuerName>ACME</issuerName>'',
      ''<issuerTradingSymbol>AC</issuerTradingSymbol>'',
      ''<reportingOwner>'',
      ''<rptOwnerCik>2</rptOwnerCik>'',
      ''<rptOwnerName>DOE</rptOwnerName>'',
      ''<isDirector>1</isDirector>'',
      ''<isOfficer>0</isOfficer>'',
      ''<isTenPercentOwner>0</isTenPercentOwner>'',
      ''<officerTitle>CEO</officerTitle>'',
      ''<nonDerivativeTransaction>'',
      ''<transactionDate>'',
      ''<transactionCode>P</transactionCode>'',
      ''<transactionShares>'',
      ''<value>10</value>'',
      ''<transactionPricePerShare>'',
      ''<value>5</value>'',
      ''<sharesOwnedFollowingTransaction>'',
      ''<value>90</value>'',
      ''<directOrIndirectOwnership>'',
      ''<value>D</value>'',
      ''<transactionCode>S</transactionCode>'']"

text \<open>A calendar that names New Year's Day 2021 (ordinal 737791, a Friday) and no other day.\<close>

definition new_year_2021 :: calendar where
  "new_year_2021 lo hi = Inr [737791]"


text \<open>A daily index with two rows.\<close>

definition index_lines :: "string list" where
  "index_lines =
     [''Description: Daily Index of EDGAR Dissemination Feed by Company Name'',
      ''Last Data Received: Jan 4, 2021'',
      ''Comments: webmaster@sec.gov'',
      ''Anonymous FTP: ftp://ftp.sec.gov/edgar/'',
      '' '',
      '' '',
      '' '',
      '' '',
      ''Company Name   Form Type   CIK   Date Filed   File Name'',
      ''------------------------------------------------------'',
      '' '',
      ''ACME CORP      4           1084869     20210104    edgar/data/1084869/0001.txt'',
      ''ZETA INC       10-K        1090000     20210104    edgar/data/1090000/0002.txt'']"

text \<open>
  A network for three URLs: the first meets the rate limit once and then a transport
  error, the second is denied, the third is answered.
\<close>

definition fetch_net :: network where
  "fetch_net n url =
     (if url = ''a'' then
        (if n = 0 then Body ''Request Rate Threshold Exceeded'' else Transport_Error)
      else if url = ''b'' then Body ''<Error><Code>AccessDenied</Code></Error>''
      else Body ''ok'')"


section \<open>Lines of a document: lemmas\<close>

lemma unlines_Nil: "unlines [] = []" by (simp add: unlines_def)

lemma unlines_Cons: "unlines (l # ls) = l @ CHR 0x0A # unlines ls" by (simp add: unlines_def)

lemma splitlines_from_line:
  "list_all (\<lambda>c. \<not> is_linebreak c) l \<Longrightarrow>
   splitlines_from cur (l @ CHR 0x0A # rest) = (rev cur @ l) # splitlines_from [] rest"
proof (induction l arbitrary: cur)
  case Nil
  show ?case by (simp add: is_linebreak_def)
next
  case (Cons c l)
  from Cons.prems have c: "\<not> is_linebreak c" and l: "list_all (\<lambda>c. \<not> is_linebreak c) l" by simp_all
  from c have "c \<noteq> CHR 0x0D" by (auto simp: is_linebreak_def)
  with c Cons.IH[OF l, of "c # cur"] show ?case by simp
qed

lemma splitlines_unlines:
  "list_all (\<lambda>l. list_all (\<lambda>c. \<not> is_linebreak c) l) ls \<Longrightarrow> splitlines (unlines ls) = ls"
proof (induction ls)
  case Nil
  show ?case by (simp add: splitlines_def unlines_Nil)
next
  case (Cons l ls)
  then have "splitlines_from [] (unlines ls) = ls" by (simp add: splitlines_def)
  with Cons.prems show ?case
    by (simp add: splitlines_def unlines_Cons splitlines_from_line)
qed

lemma startswith_sep:
  "c \<notin> set sub \<Longrightarrow> startswith sub (a @ c # b) = startswith sub a"
  by (induction sub a rule: startswith.induct) auto

lemma contains_sep:
  assumes "c \<notin> set sub" "sub \<noteq> []"
  shows "contains sub (a @ c # b) = (contains sub a \<or> contains sub b)"
proof (induction a)
  case Nil
  from assms obtain p ps where "sub = p # ps" "p \<noteq> c" by (cases sub) auto
  then show ?case using assms by simp
next
  case (Cons x a)
  have "startswith sub (x # a @ c # b) = startswith sub (x # a)"
    using startswith_sep[OF assms(1), of "x # a" b] by simp
  with Cons show ?case by auto
qed

lemma contains_unlines:
  assumes "CHR 0x0A \<notin> set sub" "sub \<noteq> []"
  shows "contains sub (unlines ls) = list_ex (contains sub) ls"
proof (induction ls)
  case Nil
  from assms show ?case by (simp add: unlines_Nil)
next
  case (Cons l ls)
  then show ?case by (simp add: unlines_Cons contains_sep[OF assms])
qed

lemma startswith_length: "startswith sub s \<Longrightarrow> length sub \<le> length s"
  by (induction sub s rule: startswith.induct) auto

lemma count_str_Nil: "sub \<noteq> [] \<Longrightarrow> count_str sub [] = 0"
  by (subst count_str.simps) simp

lemma count_str_Cons:
  "sub \<noteq> [] \<Longrightarrow> count_str sub (c # cs) =
     (if startswith sub (c # cs) then 1 + count_str sub (drop (length sub) (c # cs))
      else count_str sub cs)"
  by (subst count_str.simps) simp

lemma count_str_sep:
  assumes "c \<notin> set sub" "sub \<noteq> []"
  shows "count_str sub (a @ c # b) = count_str sub a + count_str sub b"
proof (induction a rule: length_induct)
  case (1 a)
  show ?case
  proof (cases a)
    case Nil
    from assms obtain p ps where "sub = p # ps" "p \<noteq> c" by (cases sub) auto
    then show ?thesis using Nil assms
      by (simp add: count_str_Nil count_str_Cons)
  next
    case (Cons x a')
    have sw: "startswith sub (x # a' @ c # b) = startswith sub (x # a')"
      using startswith_sep[OF assms(1), of "x # a'" b] by simp
    show ?thesis
    proof (cases "startswith sub (x # a')")
      case True
      then have len: "length sub \<le> length (x # a')" by (rule startswith_length)
      have "drop (length sub) ((x # a') @ c # b) = drop (length sub) (x # a') @ c # b"
        using len by (simp only: drop_append) simp
      then have d: "drop (length sub) (x # a' @ c # b) = drop (length sub) (x # a') @ c # b"
        by simp
      from assms(2) have "length (drop (length sub) (x # a')) < length a"
        using Cons by (cases sub) auto
      with 1 have "count_str sub (drop (length sub) (x # a') @ c # b) =
          count_str sub (drop (length sub) (x # a')) + count_str sub b" by blast
      with True sw d assms(2) Cons show ?thesis
        by (simp add: count_str_Cons)
    next
      case False
      from 1 Cons have "count_str sub (a' @ c # b) = count_str sub a' + count_str sub b" by simp
      with False sw assms(2) Cons show ?thesis
        by (simp add: count_str_Cons)
    qed
  qed
qed

lemma count_str_unlines:
  assumes "CHR 0x0A \<notin> set sub" "sub \<noteq> []"
  shows "count_str sub (unlines ls) = sum_list (map (count_str sub) ls)"
proof (induction ls)
  case Nil
  from assms show ?case by (simp add: unlines_Nil count_str_Nil)
next
  case (Cons l ls)
  then show ?case by (simp add: unlines_Cons count_str_sep[OF assms])
qed

lemma qualifies_unlines:
  "qualifies (unlines ls) =
     (list_ex (\<lambda>s. list_ex (contains s) ls) refstrings1 \<and>
      list_ex (\<lambda>p. list_ex (contains p) ls) refstrings2 \<and>
      sum_list (map (count_str ''<reportingOwner>'') ls) = 1 \<and>
      sum_list (map (count_str ''<nonDerivativeTransaction>'') ls) = 1 \<and>
      list_all (\<lambda>s. list_ex (contains s) ls) searchlist)"
proof -
  have a: "list_ex (\<lambda>s. contains s (unlines ls)) refstrings1 = list_ex (\<lambda>s. list_ex (contains s) ls) refstrings1"
    by (simp add: refstrings1_def contains_unlines)
  have b: "list_ex (\<lambda>s. contains s (unlines ls)) refstrings2 = list_ex (\<lambda>s. list_ex (contains s) ls) refstrings2"
    by (simp add: refstrings2_def contains_unlines)
  have c: "list_all (\<lambda>s. contains s (unlines ls)) searchlist = list_all (\<lambda>s. list_ex (contains s) ls) searchlist"
    by (simp add: searchlist_def contains_unlines)
  have d: "count_str ''<reportingOwner>'' (unlines ls) = sum_list (map (count_str ''<reportingOwner>'') ls)"
    by (rule count_str_unlines) simp_all
  have e: "count_str ''<nonDerivativeTransaction>'' (unlines ls) = sum_list (map (count_str ''<nonDerivativeTransaction>'') ls)"
    by (rule count_str_unlines) simp_all
  show ?thesis unfolding qualifies_def a b c d e ..
qed

lemma form_lines_unlines:
  "list_all (\<lambda>l. list_all (\<lambda>c. \<not> is_linebreak c) l) ls \<Longrightarrow>
   form_lines (unlines ls) = filter (\<lambda>l. l \<noteq> []) ls"
  by (simp add: form_lines_def splitlines_unlines)

section \<open>The scan of \<^verbatim>\<open>_form_qc\<close>: lemmas\<close>

lemma scan_inv_init: "scan_inv (scan_init url)"
  by (simp add: scan_inv_def scan_init_def)

lemma find_branch_taken:
  assumes "find (branch_taken d line) branches = Some (tag, col, sh)"
  shows "contains tag line \<and> length (d URL) \<noteq> length (d col) \<and> (tag, col, sh) \<in> set branches"
proof -
  from assms have "branch_taken d line (tag, col, sh)" and "(tag, col, sh) \<in> set branches"
    by (auto simp: find_Some_iff nth_mem)
  then show ?thesis by (simp add: branch_taken_def)
qed

lemma next_line_columns_mem:
  "(tag, col, Next_Line) \<in> set branches \<Longrightarrow> col \<in> set next_line_columns"
  by (force simp: next_line_columns_def)

lemma next_line_tags_mem:
  "(tag, col, Next_Line) \<in> set branches \<Longrightarrow> tag \<in> set next_line_tags"
  by (force simp: next_line_tags_def)

lemma scan_line_step:
  assumes inv: "scan_inv st"
  shows "\<exists>st'. scan_line st line = Inr st' \<and> scan_inv st' \<and>
           (\<forall>c. datadict st' c = datadict st c \<or>
                (length (datadict st c) < length (datadict st URL) \<and>
                 datadict st' c = datadict st c @ [line_value line]))"
proof (cases "nextline st")
  case True
  with inv obtain c where c: "label st = Label c" "c \<in> set next_line_columns" "datadict st c = []"
    by (auto simp: scan_inv_def)
  from True c inv show ?thesis
    by (auto simp: scan_line_def scan_inv_def)
next
  case False
  show ?thesis
  proof (cases "find (branch_taken (datadict st) line) branches")
    case None
    with False inv show ?thesis by (simp add: scan_line_def)
  next
    case (Some b)
    obtain tag col sh where b: "b = (tag, col, sh)" by (cases b) 
    from Some b have f: "contains tag line" "length (datadict st URL) \<noteq> length (datadict st col)"
        "(tag, col, sh) \<in> set branches"
      using find_branch_taken by blast+
    from inv have "length (datadict st URL) = 1" "length (datadict st col) \<le> 1"
      by (simp_all add: scan_inv_def)
    with f(2) have e: "datadict st col = []" "col \<noteq> URL"
      by (cases "datadict st col"; auto)+
    show ?thesis
    proof (cases sh)
      case Same_Line
      with False Some b inv e show ?thesis
        by (auto simp: scan_line_def scan_inv_def)
    next
      case Next_Line
      with f(3) have "col \<in> set next_line_columns" by (simp add: next_line_columns_mem)
      with Next_Line False Some b inv e show ?thesis
        by (auto simp: scan_line_def scan_inv_def)
    qed
  qed
qed

lemma scan_lines_inv:
  "scan_inv st \<Longrightarrow> \<exists>st'. scan_lines st ls = Inr st' \<and> scan_inv st'"
proof (induction ls arbitrary: st)
  case Nil
  then show ?case by simp
next
  case (Cons l ls)
  from scan_line_step[OF Cons.prems, of l] obtain st1 where
    "scan_line st l = Inr st1" "scan_inv st1" by blast
  with Cons.IH[of st1] show ?case by simp
qed

lemma next_line_columns_eval:
  "next_line_columns = [Transaction_Date, Number_of_Shares, Price_per_Share,
     Shares_Owned_Following_Trans, Ownership_Nature]"
  by (simp add: next_line_columns_def branches_def)

lemma next_line_tags_eval:
  "next_line_tags = [''<transactionDate>'', ''<transactionShares>'',
     ''<transactionPricePerShare>'', ''<sharesOwnedFollowingTransaction>'',
     ''<directOrIndirectOwnership>'']"
  by (simp add: next_line_tags_def branches_def)

lemma tags_before_transactionCode:
  "tags_before ''<transactionCode>'' =
     [''<periodOfReport>'', ''<issuerCik>'', ''<issuerName>'', ''<issuerTradingSymbol>'',
      ''<rptOwnerCik>'', ''<rptOwnerName>'', ''<isDirector>'', ''<isOfficer>'',
      ''<isTenPercentOwner>'', ''<officerTitle>'', ''<transactionDate>'']"
  by (simp add: tags_before_def branches_def)

lemma scan_line_nextline_False:
  assumes inv: "scan_inv st" and nt: "list_all (\<lambda>t. \<not> contains t line) next_line_tags"
    and step: "scan_line st line = Inr st'"
  shows "\<not> nextline st'"
proof (cases "nextline st")
  case True
  with inv obtain c where "label st = Label c" by (auto simp: scan_inv_def)
  with True step show ?thesis by (auto simp: scan_line_def)
next
  case False
  show ?thesis
  proof (cases "find (branch_taken (datadict st) line) branches")
    case None
    with False step show ?thesis by (auto simp: scan_line_def)
  next
    case (Some b)
    obtain tag col sh where b: "b = (tag, col, sh)" by (cases b)
    from Some b have f: "contains tag line" "(tag, col, sh) \<in> set branches"
      using find_branch_taken by blast+
    have "sh = Same_Line"
    proof (cases sh)
      case Next_Line
      with f(2) have "tag \<in> set next_line_tags" by (simp add: next_line_tags_mem)
      with nt f(1) show ?thesis by (auto simp: list_all_iff)
    qed simp
    with False Some b step show ?thesis by (auto simp: scan_line_def)
  qed
qed

lemma scan_line_code_unchanged:
  assumes inv: "scan_inv st" and nc: "\<not> contains ''<transactionCode>'' line"
    and step: "scan_line st line = Inr st'"
  shows "datadict st' Transaction_Code = datadict st Transaction_Code"
proof (cases "nextline st")
  case True
  with inv obtain c where "label st = Label c" "c \<in> set next_line_columns" by (auto simp: scan_inv_def)
  then have "label st = Label c" "c \<noteq> Transaction_Code" by (auto simp: next_line_columns_eval)
  with True step show ?thesis by (auto simp: scan_line_def)
next
  case False
  show ?thesis
  proof (cases "find (branch_taken (datadict st) line) branches")
    case None
    with False step show ?thesis by (auto simp: scan_line_def)
  next
    case (Some b)
    obtain tag col sh where b: "b = (tag, col, sh)" by (cases b)
    from Some b have f: "contains tag line" "(tag, col, sh) \<in> set branches"
      using find_branch_taken by blast+
    with nc have "col \<noteq> Transaction_Code" by (auto simp: branches_def)
    with False Some b step show ?thesis by (cases sh) (auto simp: scan_line_def)
  qed
qed

lemma scan_line_code_first:
  assumes inv: "scan_inv st" and nl: "\<not> nextline st" and e: "datadict st Transaction_Code = []"
    and c: "contains ''<transactionCode>'' line"
    and nb: "list_all (\<lambda>t. \<not> contains t line) (tags_before ''<transactionCode>'')"
  shows "\<exists>st'. scan_line st line = Inr st' \<and> datadict st' Transaction_Code = [line_value line]"
proof -
  from inv have "length (datadict st URL) = 1" by (simp add: scan_inv_def)
  with e c nb have "find (branch_taken (datadict st) line) branches =
      Some (''<transactionCode>'', Transaction_Code, Same_Line)"
    by (simp add: tags_before_transactionCode branches_def branch_taken_def)
  with nl e show ?thesis by (simp add: scan_line_def)
qed

lemma scan_line_code_kept:
  assumes inv: "scan_inv st" and e: "datadict st Transaction_Code = [v]"
    and step: "scan_line st line = Inr st'"
  shows "datadict st' Transaction_Code = [v]"
proof -
  from scan_line_step[OF inv, of line] step
  have "datadict st' Transaction_Code = datadict st Transaction_Code \<or>
        length (datadict st Transaction_Code) < length (datadict st URL)"
    by auto
  moreover from inv have "length (datadict st URL) = 1" by (simp add: scan_inv_def)
  ultimately show ?thesis using e by simp
qed

lemma scan_lines_code_kept:
  "scan_inv st \<Longrightarrow> datadict st Transaction_Code = [v] \<Longrightarrow>
   \<exists>st'. scan_lines st ls = Inr st' \<and> scan_inv st' \<and> datadict st' Transaction_Code = [v]"
proof (induction ls arbitrary: st)
  case Nil
  then show ?case by simp
next
  case (Cons l ls)
  from scan_line_step[OF Cons.prems(1), of l] obtain st1 where
    s: "scan_line st l = Inr st1" "scan_inv st1" by blast
  with scan_line_code_kept[OF Cons.prems(1) Cons.prems(2)] have "datadict st1 Transaction_Code = [v]"
    by simp
  with Cons.IH[OF s(2)] s(1) show ?case by simp
qed

lemma scan_lines_append:
  "scan_lines st (xs @ ys) = (case scan_lines st xs of Inl e \<Rightarrow> Inl e | Inr st' \<Rightarrow> scan_lines st' ys)"
  by (induction xs arbitrary: st) (auto split: sum.splits)

lemma scan_lines_code_empty:
  "scan_inv st \<Longrightarrow> datadict st Transaction_Code = [] \<Longrightarrow>
   list_all (\<lambda>x. \<not> contains ''<transactionCode>'' x) pre \<Longrightarrow>
   \<exists>st'. scan_lines st pre = Inr st' \<and> scan_inv st' \<and> datadict st' Transaction_Code = []"
proof (induction pre arbitrary: st)
  case Nil
  then show ?case by simp
next
  case (Cons l ls)
  from scan_line_step[OF Cons.prems(1), of l] obtain st1 where
    s: "scan_line st l = Inr st1" "scan_inv st1" by blast
  from Cons.prems(3) have "\<not> contains ''<transactionCode>'' l" by simp
  from scan_line_code_unchanged[OF Cons.prems(1) this s(1)] Cons.prems(2)
  have "datadict st1 Transaction_Code = []" by simp
  with Cons.IH[OF s(2)] Cons.prems(3) s(1) show ?case by simp
qed

lemma scan_lines_nextline_False:
  assumes inv: "scan_inv st" and nl: "\<not> nextline st"
    and last: "pre \<noteq> [] \<Longrightarrow> list_all (\<lambda>t. \<not> contains t (last pre)) next_line_tags"
    and run: "scan_lines st pre = Inr st'"
  shows "\<not> nextline st'"
proof (cases "pre = []")
  case True
  with run nl show ?thesis by simp
next
  case False
  then obtain bs b where pre: "pre = bs @ [b]" by (metis rev_exhaust)
  from scan_lines_inv[OF inv, of bs] obtain st1 where s1: "scan_lines st bs = Inr st1" "scan_inv st1"
    by blast
  with run pre have "scan_line st1 b = Inr st'"
    by (auto simp: scan_lines_append split: sum.splits)
  moreover from last False pre have "list_all (\<lambda>t. \<not> contains t b) next_line_tags" by simp
  ultimately show ?thesis using scan_line_nextline_False[OF s1(2)] by blast
qed

lemma scan_first_code:
  assumes pre: "list_all (\<lambda>x. \<not> contains ''<transactionCode>'' x) pre"
    and last: "pre \<noteq> [] \<Longrightarrow> list_all (\<lambda>t. \<not> contains t (last pre)) next_line_tags"
    and c: "contains ''<transactionCode>'' l"
    and nb: "list_all (\<lambda>t. \<not> contains t l) (tags_before ''<transactionCode>'')"
  shows "\<exists>st. scan_lines (scan_init url) (pre @ l # post) = Inr st \<and> scan_inv st \<and>
           datadict st Transaction_Code = [line_value l]"
proof -
  have i0: "scan_inv (scan_init url)" by (rule scan_inv_init)
  have "datadict (scan_init url) Transaction_Code = []" "\<not> nextline (scan_init url)"
    by (simp_all add: scan_init_def)
  from scan_lines_code_empty[OF i0 this(1) pre] obtain st1 where
    s1: "scan_lines (scan_init url) pre = Inr st1" "scan_inv st1" "datadict st1 Transaction_Code = []"
    by blast
  from scan_lines_nextline_False[OF i0 \<open>\<not> nextline (scan_init url)\<close> last s1(1)]
  have n1: "\<not> nextline st1" by simp
  from scan_line_code_first[OF s1(2) n1 s1(3) c nb] obtain st2 where
    s2: "scan_line st1 l = Inr st2" "datadict st2 Transaction_Code = [line_value l]" by blast
  from scan_line_step[OF s1(2), of l] s2(1) have i2: "scan_inv st2" by auto
  from scan_lines_code_kept[OF i2 s2(2), of post] obtain st3 where
    s3: "scan_lines st2 post = Inr st3" "scan_inv st3" "datadict st3 Transaction_Code = [line_value l]"
    by blast
  from s1(1) s2(1) s3 show ?thesis by (simp add: scan_lines_append)
qed

section \<open>The concrete filing: lemmas\<close>

lemma filing_lines_qualify: "qualifies (unlines filing_lines)"
  unfolding qualifies_unlines by code_simp

lemma filing_lines_form_lines: "form_lines (unlines filing_lines) = filing_lines"
proof -
  have "list_all (\<lambda>l. list_all (\<lambda>c. \<not> is_linebreak c) l) filing_lines"
    by code_simp
  then have "form_lines (unlines filing_lines) = filter (\<lambda>l. l \<noteq> []) filing_lines"
    by (rule form_lines_unlines)
  also have "\<dots> = filing_lines"
    by code_simp
  finally show ?thesis .
qed

lemma filing_lines_scan:
  "map_sum id (\<lambda>st. map (datadict st) columns) (scan_lines (scan_init ''u'') filing_lines) =
     Inr [[''u''], [''2021-01-04''], [''1''], [''ACME''], [''AC''], [''2''], [''DOE''], [''1''],
          [''0''], [''0''], [''CEO''], [''2021-01-04''], [''S''], [''10''], [''5''], [''90''],
          [''D'']]"
  by code_simp

lemma DataFrame_of_columns:
  "list_all (\<lambda>xs. length xs = 1) (map d columns) \<Longrightarrow> DataFrame d = Inr d"
  by (simp add: DataFrame_def columns_def)

lemma filing_lines_form_qc:
  "\<exists>df. form_qc (unlines filing_lines) ''u'' = Inr (Some df) \<and>
        map df columns =
          [[''u''], [''2021-01-04''], [''1''], [''ACME''], [''AC''], [''2''], [''DOE''],
           [''1''], [''0''], [''0''], [''CEO''], [''2021-01-04''], [''S''], [''10''], [''5''],
           [''90''], [''D'']]"
proof -
  from filing_lines_scan obtain st where
    st: "scan_lines (scan_init ''u'') filing_lines = Inr st" and
    v: "map (datadict st) columns =
          [[''u''], [''2021-01-04''], [''1''], [''ACME''], [''AC''], [''2''], [''DOE''], [''1''],
           [''0''], [''0''], [''CEO''], [''2021-01-04''], [''S''], [''10''], [''5''], [''90''],
           [''D'']]"
    by (cases "scan_lines (scan_init ''u'') filing_lines") auto
  from v have "DataFrame (datadict st) = Inr (datadict st)"
    by (intro DataFrame_of_columns) simp
  with filing_lines_qualify filing_lines_form_lines st v show ?thesis
    by (simp add: form_qc_def)
qed

lemma gate_unlines:
  "list_ex (\<lambda>s. contains s (unlines ls)) refstrings1 = list_ex (\<lambda>s. list_ex (contains s) ls) refstrings1"
  "list_ex (\<lambda>s. contains s (unlines ls)) refstrings2 = list_ex (\<lambda>s. list_ex (contains s) ls) refstrings2"
  "list_all (\<lambda>s. contains s (unlines ls)) searchlist = list_all (\<lambda>s. list_ex (contains s) ls) searchlist"
  "count_str ''<reportingOwner>'' (unlines ls) = sum_list (map (count_str ''<reportingOwner>'') ls)"
  "count_str ''<nonDerivativeTransaction>'' (unlines ls) = sum_list (map (count_str ''<nonDerivativeTransaction>'') ls)"
  by (simp_all add: refstrings1_def refstrings2_def searchlist_def contains_unlines count_str_unlines)

section \<open>The cleaning step: claim C9\<close>

text \<open>
  C9. The cleaning step maps, in the Director and Officer columns, every value "0" to
  "false" and every value "1" to "true", leaves every other value of these columns (also
  "true" and "false") as it is, and changes no other column.
\<close>

theorem clean_download_director_officer:
  "clean_download df c =
     (if c = Director \<or> c = Officer
      then map (\<lambda>v. if v = ''0'' then ''false'' else if v = ''1'' then ''true'' else v) (df c)
      else df c)"
proof -
  have r: "series_replace [(''0'', ''false''), (''1'', ''true'')] xs =
             map (\<lambda>v. if v = ''0'' then ''false'' else if v = ''1'' then ''true'' else v) xs" for xs
    by (simp add: series_replace_def)
  show ?thesis
    by (simp add: clean_download_def Let_def r)
qed

theorem clean_download_director_officer_witness:
  "clean_download ((\<lambda>c. [''0''])(Director := [''0'', ''1'', ''true'', ''false'', ''10''])) Director =
     [''false'', ''true'', ''true'', ''false'', ''10''] \<and>
   clean_download ((\<lambda>c. [''0''])(Director := [''0'', ''1'', ''true'', ''false'', ''10''])) Officer =
     [''false''] \<and>
   clean_download ((\<lambda>c. [''0''])(Director := [''0'', ''1'', ''true'', ''false'', ''10''])) Transaction_Code =
     [''0'']"
  using clean_download_director_officer
          [of "(\<lambda>c. [''0''])(Director := [''0'', ''1'', ''true'', ''false'', ''10''])" Director]
        clean_download_director_officer
          [of "(\<lambda>c. [''0''])(Director := [''0'', ''1'', ''true'', ''false'', ''10''])" Officer]
        clean_download_director_officer
          [of "(\<lambda>c. [''0''])(Director := [''0'', ''1'', ''true'', ''false'', ''10''])" Transaction_Code]
  by simp

section \<open>The gate of \<^verbatim>\<open>_form_qc\<close>: claim C4\<close>

text \<open>
  C4. A document in which \<^verbatim>\<open><nonDerivativeTransaction>\<close> occurs zero times or more than once
  (its count is not one) makes \<^verbatim>\<open>_form_qc\<close> return \<^verbatim>\<open>None\<close>, whatever the other
  tests of the gate say.
\<close>

theorem form_qc_needs_one_transaction:
  assumes "count_str ''<nonDerivativeTransaction>'' formtext \<noteq> 1"
  shows "form_qc formtext url = Inr None"
proof -
  from assms have "\<not> qualifies formtext"
    by (simp add: qualifies_def)
  then show ?thesis
    by (simp add: form_qc_def)
qed

text \<open>
  The witness is the filing above with a second \<^verbatim>\<open><nonDerivativeTransaction>\<close> line: the
  other four tests of the gate hold for it.
\<close>

theorem form_qc_needs_one_transaction_witness:
  "count_str ''<nonDerivativeTransaction>'' (unlines (filing_lines @ [''<nonDerivativeTransaction>''])) = 2 \<and>
   list_ex (\<lambda>s. contains s (unlines (filing_lines @ [''<nonDerivativeTransaction>'']))) refstrings1 \<and>
   list_ex (\<lambda>p. contains p (unlines (filing_lines @ [''<nonDerivativeTransaction>'']))) refstrings2 \<and>
   count_str ''<reportingOwner>'' (unlines (filing_lines @ [''<nonDerivativeTransaction>''])) = 1 \<and>
   list_all (\<lambda>s. contains s (unlines (filing_lines @ [''<nonDerivativeTransaction>'']))) searchlist \<and>
   form_qc (unlines (filing_lines @ [''<nonDerivativeTransaction>''])) ''u'' = Inr None"
proof -
  let ?ls = "filing_lines @ [''<nonDerivativeTransaction>'']"
  have n: "count_str ''<nonDerivativeTransaction>'' (unlines ?ls) = 2"
    unfolding gate_unlines by code_simp
  have g: "list_ex (\<lambda>s. contains s (unlines ?ls)) refstrings1"
          "list_ex (\<lambda>p. contains p (unlines ?ls)) refstrings2"
          "count_str ''<reportingOwner>'' (unlines ?ls) = 1"
          "list_all (\<lambda>s. contains s (unlines ?ls)) searchlist"
    unfolding gate_unlines by code_simp+
  from n have "form_qc (unlines ?ls) ''u'' = Inr None"
    by (intro form_qc_needs_one_transaction) simp
  with n g show ?thesis
    by simp
qed

section \<open>The column lengths during the scan: claim C2\<close>

text \<open>
  C2. At every point of the scan (after any number \<open>n\<close> of lines of any document) the
  loop has raised nothing, there is one URL, and no column is longer than the URL column.
  The next turn, whatever its line, leaves each column as it is or appends one value to
  it, and it appends only to a column that is strictly shorter than the URL column.
\<close>

theorem scan_appends_only_behind_url_count:
  "\<exists>st. scan_lines (scan_init url) (take n (form_lines formtext)) = Inr st \<and>
      length (datadict st URL) = 1 \<and>
      (\<forall>c. length (datadict st c) \<le> length (datadict st URL)) \<and>
      (\<forall>line. \<exists>st'. scan_line st line = Inr st' \<and>
          (\<forall>c. datadict st' c = datadict st c \<or>
                (length (datadict st c) < length (datadict st URL) \<and>
                 datadict st' c = datadict st c @ [line_value line])))"
proof -
  from scan_lines_inv[OF scan_inv_init] obtain st where
    st: "scan_lines (scan_init url) (take n (form_lines formtext)) = Inr st" "scan_inv st"
    by blast
  from st(2) have "length (datadict st URL) = 1"
    and "\<forall>c. length (datadict st c) \<le> length (datadict st URL)"
    by (simp_all add: scan_inv_def)
  moreover from scan_line_step[OF st(2)]
  have "\<forall>line. \<exists>st'. scan_line st line = Inr st' \<and>
          (\<forall>c. datadict st' c = datadict st c \<or>
                (length (datadict st c) < length (datadict st URL) \<and>
                 datadict st' c = datadict st c @ [line_value line]))"
    by blast
  ultimately show ?thesis
    using st(1) by blast
qed

text \<open>
  The witness stops the scan of the filing above behind its second line, where the issuer
  column is full, and offers it a second \<^verbatim>\<open><issuerCik>\<close> line: nothing is appended.
\<close>

theorem scan_appends_only_behind_url_count_witness:
  "\<exists>st. scan_lines (scan_init ''u'') (take 2 (form_lines (unlines filing_lines))) = Inr st \<and>
      datadict st URL = [''u''] \<and> datadict st Issuer_CIK = [''1''] \<and>
      (\<exists>st'. scan_line st ''<issuerCik>7</issuerCik>'' = Inr st' \<and>
             datadict st' Issuer_CIK = [''1''])"
proof -
  from scan_appends_only_behind_url_count[of "''u''" 2 "unlines filing_lines"]
  obtain st where
    st: "scan_lines (scan_init ''u'') (take 2 (form_lines (unlines filing_lines))) = Inr st"
    and len: "length (datadict st URL) = 1"
    and step: "\<forall>line. \<exists>st'. scan_line st line = Inr st' \<and>
          (\<forall>c. datadict st' c = datadict st c \<or>
                (length (datadict st c) < length (datadict st URL) \<and>
                 datadict st' c = datadict st c @ [line_value line]))"
    by blast
  have "map_sum id (\<lambda>st. (datadict st URL, datadict st Issuer_CIK))
          (scan_lines (scan_init ''u'') (take 2 filing_lines)) = Inr ([''u''], [''1''])"
    by code_simp
  with st have v: "datadict st URL = [''u'']" "datadict st Issuer_CIK = [''1'']"
    by (simp_all add: filing_lines_form_lines)
  from step obtain st' where
    s: "scan_line st ''<issuerCik>7</issuerCik>'' = Inr st'"
    and "datadict st' Issuer_CIK = datadict st Issuer_CIK \<or>
         length (datadict st Issuer_CIK) < length (datadict st URL)"
    by blast
  with v have "datadict st' Issuer_CIK = [''1'']"
    by simp
  with st v s show ?thesis
    by blast
qed

section \<open>The first transaction code: claim C3\<close>

text \<open>
  C3, as stated, fails: the filing qualifies and holds two \<^verbatim>\<open><transactionCode>\<close> tags, the
  first with the value P; \<^verbatim>\<open>_form_qc\<close> stores P as the transaction date and records S,
  the value of the second tag, as the transaction code.
\<close>

theorem first_transactionCode_counterexample:
  "qualifies (unlines swallowed_code_lines) \<and>
   count_str ''<transactionCode>'' (unlines swallowed_code_lines) = 2 \<and>
   spec_first_occurrence_value ''<transactionCode>'' (unlines swallowed_code_lines) = Some ''P'' \<and>
   recorded Transaction_Date (form_qc (unlines swallowed_code_lines) ''u'') = Inr (Some [''P'']) \<and>
   recorded Transaction_Code (form_qc (unlines swallowed_code_lines) ''u'') = Inr (Some [''S''])"
proof -
  have q: "qualifies (unlines swallowed_code_lines)"
    unfolding qualifies_unlines by code_simp
  have n: "count_str ''<transactionCode>'' (unlines swallowed_code_lines) = 2"
    by (subst count_str_unlines) (simp, simp, code_simp)
  have f: "spec_first_occurrence_value ''<transactionCode>'' (unlines swallowed_code_lines) = Some ''P''"
    by code_simp
  have "list_all (\<lambda>l. list_all (\<lambda>c. \<not> is_linebreak c) l) swallowed_code_lines"
    by code_simp
  then have "form_lines (unlines swallowed_code_lines) = filter (\<lambda>l. l \<noteq> []) swallowed_code_lines"
    by (rule form_lines_unlines)
  also have "\<dots> = swallowed_code_lines"
    by code_simp
  finally have fl: "form_lines (unlines swallowed_code_lines) = swallowed_code_lines" .
  have "map_sum id (\<lambda>st. map (datadict st) columns) (scan_lines (scan_init ''u'') swallowed_code_lines) =
     Inr [[''u''], [''2021-01-04''], [''1''], [''ACME''], [''AC''], [''2''], [''DOE''], [''1''],
          [''0''], [''0''], [''CEO''], [''P''], [''S''], [''10''], [''5''], [''90''], [''D'']]"
    by code_simp
  then obtain st where
    st: "scan_lines (scan_init ''u'') swallowed_code_lines = Inr st" and
    v: "map (datadict st) columns =
          [[''u''], [''2021-01-04''], [''1''], [''ACME''], [''AC''], [''2''], [''DOE''], [''1''],
           [''0''], [''0''], [''CEO''], [''P''], [''S''], [''10''], [''5''], [''90''], [''D'']]"
    by (cases "scan_lines (scan_init ''u'') swallowed_code_lines") auto
  from v have "DataFrame (datadict st) = Inr (datadict st)"
    by (intro DataFrame_of_columns) simp
  with q fl st have "form_qc (unlines swallowed_code_lines) ''u'' = Inr (Some (datadict st))"
    by (simp add: form_qc_def)
  moreover from v have "datadict st Transaction_Date = [''P'']" "datadict st Transaction_Code = [''S'']"
    by (simp_all add: columns_def)
  ultimately have "recorded Transaction_Date (form_qc (unlines swallowed_code_lines) ''u'') = Inr (Some [''P''])"
    and "recorded Transaction_Code (form_qc (unlines swallowed_code_lines) ''u'') = Inr (Some [''S''])"
    by (simp_all add: recorded_def)
  with q n f show ?thesis
    by simp
qed

text \<open>
  C3, amended. Take the first of the non-empty lines that contains \<^verbatim>\<open><transactionCode>\<close>.
  If it contains none of the tags that the loop tests before this one, and the line before
  it (if there is one) contains none of the five next-line tags, then the scan ends with
  exactly one transaction code, the stripped text of that line, whatever follows it: every
  later \<^verbatim>\<open><transactionCode>\<close> line is ignored. So a frame that \<^verbatim>\<open>_form_qc\<close> returns has this
  value in its transaction code column.
\<close>

theorem first_scanned_transactionCode_line_recorded:
  assumes "form_lines formtext = pre @ l # post"
    and "list_all (\<lambda>x. \<not> contains ''<transactionCode>'' x) pre"
    and "contains ''<transactionCode>'' l"
    and "list_all (\<lambda>t. \<not> contains t l) (tags_before ''<transactionCode>'')"
    and "pre \<noteq> [] \<longrightarrow> list_all (\<lambda>t. \<not> contains t (last pre)) next_line_tags"
  shows "(\<exists>st. scan_lines (scan_init url) (form_lines formtext) = Inr st \<and>
               datadict st Transaction_Code = [line_value l]) \<and>
         (\<forall>df. form_qc formtext url = Inr (Some df) \<longrightarrow> df Transaction_Code = [line_value l])"
proof -
  from assms(5) have last: "pre \<noteq> [] \<Longrightarrow> list_all (\<lambda>t. \<not> contains t (last pre)) next_line_tags"
    by simp
  from scan_first_code[OF assms(2) last assms(3) assms(4), of url post] obtain st where
    st: "scan_lines (scan_init url) (pre @ l # post) = Inr st"
        "datadict st Transaction_Code = [line_value l]"
    by blast
  have "df Transaction_Code = [line_value l]" if "form_qc formtext url = Inr (Some df)" for df
  proof -
    from that st(1) assms(1) have "DataFrame (datadict st) = Inr df"
      by (auto simp: form_qc_def split: if_splits sum.splits)
    then have "df = datadict st"
      by (simp add: DataFrame_def split: if_splits)
    with st(2) show ?thesis by simp
  qed
  with st assms(1) show ?thesis
    by simp
qed

theorem first_scanned_transactionCode_line_recorded_witness:
  "form_lines (unlines filing_lines) =
     take 14 filing_lines @ ''<transactionCode>S</transactionCode>'' # drop 15 filing_lines \<and>
   contains ''<transactionCode>'' (last (drop 15 filing_lines)) \<and>
   recorded Transaction_Code (form_qc (unlines filing_lines) ''u'') = Inr (Some [''S''])"
proof -
  let ?pre = "take 14 filing_lines" and ?post = "drop 15 filing_lines"
  let ?l = "''<transactionCode>S</transactionCode>''"
  have split: "filing_lines = ?pre @ ?l # ?post"
    by code_simp
  with filing_lines_form_lines have a1: "form_lines (unlines filing_lines) = ?pre @ ?l # ?post"
    by simp
  have a2: "list_all (\<lambda>x. \<not> contains ''<transactionCode>'' x) ?pre"
    by code_simp
  have a3: "contains ''<transactionCode>'' ?l"
    by code_simp
  have a4: "list_all (\<lambda>t. \<not> contains t ?l) (tags_before ''<transactionCode>'')"
    by code_simp
  have a5: "?pre \<noteq> [] \<longrightarrow> list_all (\<lambda>t. \<not> contains t (last ?pre)) next_line_tags"
    by code_simp
  have later: "contains ''<transactionCode>'' (last ?post)"
    by code_simp
  have v: "line_value ?l = ''S''"
    by code_simp
  from filing_lines_form_qc obtain df where
    df: "form_qc (unlines filing_lines) ''u'' = Inr (Some df)"
    by blast
  from first_scanned_transactionCode_line_recorded[OF a1 a2 a3 a4 a5, of "''u''"] df v
  have "df Transaction_Code = [''S'']"
    by simp
  with df a1 later show ?thesis
    by (simp add: recorded_def)
qed

section \<open>The calendar: lemmas\<close>

lemma unique_distinct: "distinct xs \<Longrightarrow> unique xs = xs"
  by (simp add: unique_def distinct_remdups_id)

lemma set_unique: "set (unique xs) = set xs"
  by (simp add: unique_def)

lemma date_range_distinct: "distinct (date_range start end)"
  by (simp add: date_range_def)

section \<open>The holidays flag: claims C10 and C6\<close>

text \<open>
  C10. The parameter \<^verbatim>\<open>holidays\<close> has no effect: with either value the result (a list or
  an exception) is the same. With weekends excluded, no date that the calendar names as a
  holiday of the range is in the list; with weekends included, the list is every day of
  the range, holidays among them.
\<close>

theorem holidays_parameter_ignored:
  "date_list_generator cal start end weekends True =
     date_list_generator cal start end weekends False \<and>
   (\<forall>hs ds. cal (index_min (bdate_range start end)) (index_max (bdate_range start end)) = Inr hs \<and>
            date_list_generator cal start end False holidays = Inr ds
            \<longrightarrow> set ds \<inter> set hs = {}) \<and>
   date_list_generator cal start end True holidays = Inr (date_range start end)"
proof -
  have same: "date_list_generator cal start end weekends True =
      date_list_generator cal start end weekends False"
    by (simp add: date_list_generator_def)
  have excl: "set ds \<inter> set hs = {}"
    if "cal (index_min (bdate_range start end)) (index_max (bdate_range start end)) = Inr hs"
      and "date_list_generator cal start end False holidays = Inr ds" for hs ds
  proof -
    from that have "ds = unique (filter (\<lambda>d. d \<notin> set hs) (bdate_range start end))"
      by (simp add: date_list_generator_def)
    then have "set ds = {d \<in> set (bdate_range start end). d \<notin> set hs}"
      by (simp add: set_unique)
    then show ?thesis by auto
  qed
  have incl: "date_list_generator cal start end True holidays = Inr (date_range start end)"
    by (simp add: date_list_generator_def unique_distinct date_range_distinct)
  from same excl incl show ?thesis
    by blast
qed

text \<open>
  The witness runs from Thursday, 31 December 2020 (ordinal 737790), to Monday, 4 January
  2021, with a calendar that names New Year's Day (737791).
\<close>

theorem holidays_parameter_ignored_witness:
  "date_list_generator new_year_2021 737790 737794 False True = Inr [737790, 737794] \<and>
   date_list_generator new_year_2021 737790 737794 False False = Inr [737790, 737794] \<and>
   date_list_generator new_year_2021 737790 737794 True True =
     Inr [737790, 737791, 737792, 737793, 737794] \<and>
   date_list_generator new_year_2021 737790 737794 True False =
     Inr [737790, 737791, 737792, 737793, 737794]"
proof -
  have a: "date_list_generator new_year_2021 737790 737794 False False =
      Inr [737790, 737794]"
    by code_simp
  have b: "date_range 737790 737794 = [737790, 737791, 737792, 737793, 737794]"
    by code_simp
  from holidays_parameter_ignored[of new_year_2021 737790 737794 False True] a
       holidays_parameter_ignored[of new_year_2021 737790 737794 True True] b
       holidays_parameter_ignored[of new_year_2021 737790 737794 True False]
  show ?thesis
    by simp
qed

text \<open>
  C6 promises, with the docstring of \<^verbatim>\<open>_date_list_generator\<close>, a list without holidays
  whenever \<^verbatim>\<open>holidays\<close> is false. The code keeps the holiday when weekends are included:
  for New Year's Day 2021 alone, with \<^verbatim>\<open>weekends=True\<close> and \<^verbatim>\<open>holidays=False\<close>, the list is
  that day, which the calendar names a holiday.
\<close>

theorem date_list_generator_keeps_holiday:
  "date_list_generator new_year_2021 737791 737791 True False = Inr [737791] \<and>
   new_year_2021 (Some 737791) (Some 737791) = Inr [737791] \<and>
   weekday 737791 = 4"
  by code_simp

section \<open>The index URL: claim C7\<close>

lemma month_and_day_bounds:
  assumes "0 \<le> n" "n < 365"
  shows "1 \<le> fst (month_and_day leapyear n) \<and> fst (month_and_day leapyear n) \<le> 12"
proof -
  define m where "m = (n + 50) div 32"
  from assms have m: "1 \<le> m" "m \<le> 12"
    unfolding m_def by presburger+
  show ?thesis
  proof (cases "m = 1")
    case True
    with assms have "month_and_day leapyear n = (1, n + 1)"
      by (simp add: month_and_day_def Let_def m_def[symmetric] DAYS_BEFORE_MONTH_def)
    then show ?thesis by simp
  next
    case False
    with m have "2 \<le> m" by simp
    with m have "fst (month_and_day leapyear n) = m \<or> fst (month_and_day leapyear n) = m - 1"
      by (simp add: month_and_day_def Let_def m_def[symmetric])
    with m \<open>2 \<le> m\<close> show ?thesis by auto
  qed
qed

lemma month_of_bounds: "1 \<le> month_of d \<and> month_of d \<le> 12"
proof -
  define n where "n = (d - 1) mod 146097 mod 36524 mod 1461 mod 365"
  define n1 where "n1 = (d - 1) mod 146097 mod 36524 mod 1461 div 365"
  define n4 where "n4 = (d - 1) mod 146097 mod 36524 div 1461"
  define n100 where "n100 = (d - 1) mod 146097 div 36524"
  define yr where "yr = (d - 1) div 146097 * 400 + 1 + n100 * 100 + n4 * 4 + n1"
  have eq: "ord2ymd d =
      (if n1 = 4 \<or> n100 = 4 then (yr - 1, 12, 31)
       else (case month_and_day (n1 = 3 \<and> (n4 \<noteq> 24 \<or> n100 = 3)) n of
               (month, day) \<Rightarrow> (yr, month, day)))"
    unfolding ord2ymd_def Let_def n_def n1_def n4_def n100_def yr_def by (rule refl)
  have n: "0 \<le> n" "n < 365"
    unfolding n_def by (rule pos_mod_sign, simp) (rule pos_mod_bound, simp)
  have "month_of d = 12 \<or> month_of d = fst (month_and_day (n1 = 3 \<and> (n4 \<noteq> 24 \<or> n100 = 3)) n)"
    unfolding month_of_def eq by (simp add: split_beta)
  with month_and_day_bounds[OF n] show ?thesis
    by auto
qed

text \<open>
  C7. The URL of a date is the fixed prefix, the year, \<^verbatim>\<open>/QTR\<close> and the quarter
  \<open>(month - 1) div 3 + 1\<close>, \<^verbatim>\<open>/company.\<close>, the date as year, two-digit month and two-digit
  day, and \<^verbatim>\<open>.idx\<close>. The month lies between 1 and 12, so that the quarter is 1 up to
  month 3, 2 up to month 6, 3 up to month 9 and 4 after that. It is a function of the date
  alone: equal dates have equal URLs.
\<close>

theorem index_url_of_date:
  "index_url d =
     ''https://www.sec.gov/Archives/edgar/daily-index/'' @ str_int (year_of d) @
     ''/QTR'' @ str_int ((month_of d - 1) div 3 + 1) @
     ''/company.'' @ str_int (year_of d) @ zfill 2 (str_int (month_of d)) @
     zfill 2 (str_int (day_of d)) @ ''.idx'' \<and>
   1 \<le> month_of d \<and> month_of d \<le> 12 \<and>
   (month_of d - 1) div 3 + 1 =
     (if month_of d \<le> 3 then 1 else if month_of d \<le> 6 then 2
      else if month_of d \<le> 9 then 3 else 4) \<and>
   (d = d' \<longrightarrow> index_url d = index_url d')"
proof -
  have shape: "index_url d =
     ''https://www.sec.gov/Archives/edgar/daily-index/'' @ str_int (year_of d) @
     ''/QTR'' @ str_int ((month_of d - 1) div 3 + 1) @
     ''/company.'' @ str_int (year_of d) @ zfill 2 (str_int (month_of d)) @
     zfill 2 (str_int (day_of d)) @ ''.idx''"
    by (simp add: index_url_def strftime_Y_def strftime_Ymd_def)
  from month_of_bounds[of d] have b: "1 \<le> month_of d" "month_of d \<le> 12"
    by simp_all
  then have q: "(month_of d - 1) div 3 + 1 =
     (if month_of d \<le> 3 then 1 else if month_of d \<le> 6 then 2
      else if month_of d \<le> 9 then 3 else 4)"
    by presburger
  from shape b q show ?thesis
    by blast
qed

text \<open>
  The witness: 31 March 2021 (ordinal 737880) lies in the first quarter and 1 April 2021
  in the second.
\<close>

theorem index_url_of_date_witness:
  "month_of 737880 = 3 \<and> month_of 737881 = 4 \<and>
   index_url 737880 =
     ''https://www.sec.gov/Archives/edgar/daily-index/2021/QTR1/company.20210331.idx'' \<and>
   index_url 737881 =
     ''https://www.sec.gov/Archives/edgar/daily-index/2021/QTR2/company.20210401.idx''"
proof -
  have ymd: "year_of 737880 = 2021" "month_of 737880 = 3" "day_of 737880 = 31"
            "year_of 737881 = 2021" "month_of 737881 = 4" "day_of 737881 = 1"
    by code_simp+
  have s: "str_int 2021 = ''2021''" "str_int 1 = ''1''" "str_int 2 = ''2''"
          "zfill 2 (str_int 3) = ''03''" "zfill 2 (str_int 4) = ''04''"
          "zfill 2 (str_int 31) = ''31''" "zfill 2 (str_int 1) = ''01''"
    by code_simp+
  from index_url_of_date[of 737880 737880] index_url_of_date[of 737881 737881] ymd s
  show ?thesis
    by simp
qed

section \<open>The index parser: claim C5\<close>

lemma fold_max_lengths:
  "list_all (\<lambda>r. length r = n) rows \<Longrightarrow>
   fold max (map length rows) k = (if rows = [] then k else max n k)"
  by (induction rows arbitrary: k) (auto simp: max_def)

lemma DataFrame_rows_six:
  assumes "list_all (\<lambda>r. length r = 6) rows"
  shows "DataFrame_rows rows = Inr (map to_index_record rows)"
  using fold_max_lengths[OF assms, of 0] by (simp add: DataFrame_rows_def)

lemma to_index_record_six:
  "length ts = 5 \<Longrightarrow>
   to_index_record (ts @ [u]) =
     \<lparr>company_name = Some (ts ! 0), form_type = Some (ts ! 1), cik = Some (ts ! 2),
      date_filed = Some (ts ! 3), file_name = Some (ts ! 4), idx_name = Some u\<rparr>"
  by (simp add: to_index_record_def cell_def nth_append)

text \<open>
  C5. Let the lines of the index document be eleven header lines followed by \<open>N\<close> rows
  that each split into exactly five non-empty tokens. Then \<^verbatim>\<open>_idx_to_dataframe\<close> returns \<open>N\<close>
  records, one per row and in the order of the rows; each holds the five tokens of its row
  as company name, form type, CIK, date filed and file name, and the source URL as index
  name. The header lines are skipped whatever they contain.
\<close>

theorem idx_to_dataframe_rows:
  assumes "splitlines idx = header @ rows"
    and "length header = 11"
    and "list_all (\<lambda>line. length (row_tokens line) = 5) rows"
  shows "idx_to_dataframe idx idx_url =
           Inr (map (\<lambda>line.
                  \<lparr>company_name = Some (row_tokens line ! 0),
                   form_type = Some (row_tokens line ! 1),
                   cik = Some (row_tokens line ! 2),
                   date_filed = Some (row_tokens line ! 3),
                   file_name = Some (row_tokens line ! 4),
                   idx_name = Some idx_url\<rparr>) rows) \<and>
         (\<exists>records. idx_to_dataframe idx idx_url = Inr records \<and>
                    length records = length rows \<and>
                    list_all (\<lambda>r. idx_name r = Some idx_url) records)"
proof -
  let ?rec = "\<lambda>line.
      \<lparr>company_name = Some (row_tokens line ! 0), form_type = Some (row_tokens line ! 1),
       cik = Some (row_tokens line ! 2), date_filed = Some (row_tokens line ! 3),
       file_name = Some (row_tokens line ! 4), idx_name = Some idx_url\<rparr>"
  from assms(1,2) have rows: "idx_rows idx idx_url = map (\<lambda>line. row_tokens line @ [idx_url]) rows"
    by (simp add: idx_rows_def)
  from assms(3) have six: "list_all (\<lambda>r. length r = 6) (idx_rows idx idx_url)"
    unfolding rows by (induction rows) auto
  from assms(3) have "map to_index_record (idx_rows idx idx_url) = map ?rec rows"
    unfolding rows by (induction rows) (auto simp: to_index_record_six)
  with DataFrame_rows_six[OF six] have eq: "idx_to_dataframe idx idx_url = Inr (map ?rec rows)"
    by (simp add: idx_to_dataframe_def)
  have "list_all (\<lambda>r. idx_name r = Some idx_url) (map ?rec rows)"
    by (induction rows) auto
  with eq show ?thesis
    by simp
qed

theorem idx_to_dataframe_rows_witness:
  "splitlines (unlines index_lines) = take 11 index_lines @ drop 11 index_lines \<and>
   length (drop 11 index_lines) = 2 \<and>
   idx_to_dataframe (unlines index_lines) ''https://www.sec.gov/x.idx'' =
     Inr [\<lparr>company_name = Some ''ACME CORP'', form_type = Some ''4'', cik = Some ''1084869'',
           date_filed = Some ''20210104'', file_name = Some ''edgar/data/1084869/0001.txt'',
           idx_name = Some ''https://www.sec.gov/x.idx''\<rparr>,
          \<lparr>company_name = Some ''ZETA INC'', form_type = Some ''10-K'', cik = Some ''1090000'',
           date_filed = Some ''20210104'', file_name = Some ''edgar/data/1090000/0002.txt'',
           idx_name = Some ''https://www.sec.gov/x.idx''\<rparr>]"
proof -
  have "list_all (\<lambda>l. list_all (\<lambda>c. \<not> is_linebreak c) l) index_lines"
    by code_simp
  then have a1: "splitlines (unlines index_lines) = take 11 index_lines @ drop 11 index_lines"
    by (simp add: splitlines_unlines)
  have a2: "length (take 11 index_lines) = 11"
    by code_simp
  have a3: "list_all (\<lambda>line. length (row_tokens line) = 5) (drop 11 index_lines)"
    by code_simp
  have rows: "drop 11 index_lines =
     [''ACME CORP      4           1084869     20210104    edgar/data/1084869/0001.txt'',
      ''ZETA INC       10-K        1090000     20210104    edgar/data/1090000/0002.txt'']"
    by code_simp
  have t: "row_tokens ''ACME CORP      4           1084869     20210104    edgar/data/1084869/0001.txt'' =
             [''ACME CORP'', ''4'', ''1084869'', ''20210104'', ''edgar/data/1084869/0001.txt'']"
          "row_tokens ''ZETA INC       10-K        1090000     20210104    edgar/data/1090000/0002.txt'' =
             [''ZETA INC'', ''10-K'', ''1090000'', ''20210104'', ''edgar/data/1090000/0002.txt'']"
    by code_simp+
  from idx_to_dataframe_rows[OF a1 a2 a3, of "''https://www.sec.gov/x.idx''"]
  have "idx_to_dataframe (unlines index_lines) ''https://www.sec.gov/x.idx'' =
     Inr [\<lparr>company_name = Some ''ACME CORP'', form_type = Some ''4'', cik = Some ''1084869'',
           date_filed = Some ''20210104'', file_name = Some ''edgar/data/1084869/0001.txt'',
           idx_name = Some ''https://www.sec.gov/x.idx''\<rparr>,
          \<lparr>company_name = Some ''ZETA INC'', form_type = Some ''10-K'', cik = Some ''1090000'',
           date_filed = Some ''20210104'', file_name = Some ''edgar/data/1090000/0002.txt'',
           idx_name = Some ''https://www.sec.gov/x.idx''\<rparr>]"
    unfolding rows by (simp add: t)
  with a1 rows show ?thesis
    by simp
qed

section \<open>The bulk fetcher: claim C8\<close>

lemma download_one_threaded_fails:
  assumes "\<forall>i<k. \<exists>t. net (length log + i) url = Body t \<and>
                     contains ''Request Rate Threshold Exceeded'' t"
    and "net (length log + k) url = Transport_Error \<or>
         (\<exists>t. net (length log + k) url = Body t \<and>
              \<not> contains ''Request Rate Threshold Exceeded'' t \<and> contains ''AccessDenied'' t)"
  shows "download_one_threaded net url log = Some (None, log @ replicate (Suc k) url)"
  using assms
proof (induction k arbitrary: log)
  case 0
  from "0.prems"(2) show ?case
    by (subst download_one_threaded.simps) auto
next
  case (Suc k)
  from Suc.prems(1) obtain t where
    t: "net (length log) url = Body t" "contains ''Request Rate Threshold Exceeded'' t"
    by force
  have "\<forall>i<k. \<exists>t. net (length (log @ [url]) + i) url = Body t \<and>
                  contains ''Request Rate Threshold Exceeded'' t"
  proof (intro allI impI)
    fix i assume "i < k"
    then have "Suc i < Suc k" by simp
    with Suc.prems(1) show "\<exists>t. net (length (log @ [url]) + i) url = Body t \<and>
                  contains ''Request Rate Threshold Exceeded'' t"
      by (metis add_Suc_right add_Suc_shift length_append_singleton)
  qed
  moreover from Suc.prems(2) have "net (length (log @ [url]) + k) url = Transport_Error \<or>
         (\<exists>t. net (length (log @ [url]) + k) url = Body t \<and>
              \<not> contains ''Request Rate Threshold Exceeded'' t \<and> contains ''AccessDenied'' t)"
    by simp
  ultimately have "download_one_threaded net url (log @ [url]) =
      Some (None, (log @ [url]) @ replicate (Suc k) url)"
    by (rule Suc.IH)
  with t show ?case
    by (subst download_one_threaded.simps) (simp add: replicate_app_Cons_same)
qed

lemma download_thread_Nil: "download_thread net [] log = Some ([], log)"
  by (simp add: download_thread_def)

lemma download_thread_Cons:
  "download_thread net (url # urls) log =
     (case download_one_threaded net url log of
        None \<Rightarrow> None
      | Some (None, log1) \<Rightarrow> download_thread net urls log1
      | Some (Some text, log1) \<Rightarrow>
          (case download_thread net urls log1 of
             None \<Rightarrow> None
           | Some (results, log2) \<Rightarrow> Some ((text, url) # results, log2)))"
  by (simp add: download_thread_def split: option.splits prod.splits)

lemma download_thread_urls:
  "download_thread net urls log = Some (results, log1) \<Longrightarrow> snd ` set results \<subseteq> set urls"
proof (induction urls arbitrary: log results)
  case Nil
  then show ?case by (simp add: download_thread_Nil)
next
  case (Cons u us)
  from Cons.prems obtain r l where one: "download_one_threaded net u log = Some (r, l)"
    by (auto simp: download_thread_Cons split: option.splits)
  show ?case
  proof (cases r)
    case None
    with one Cons.prems have "download_thread net us l = Some (results, log1)"
      by (simp add: download_thread_Cons)
    from Cons.IH[OF this] show ?thesis by auto
  next
    case (Some page)
    with one Cons.prems obtain rest where
      rest: "download_thread net us l = Some (rest, log1)" "results = (page, u) # rest"
      by (auto simp: download_thread_Cons split: option.splits)
    from Cons.IH[OF rest(1)] rest(2) show ?thesis by auto
  qed
qed

text \<open>
  C8. Take a URL whose requests are first answered \<open>k\<close> times with the rate-limit page
  (the loop sleeps and asks again; \<open>k\<close> may be 0) and whose next request, the one that ends
  the loop, either raises a transport error or brings a response that holds the
  access-denied marker. Its fetch returns \<^verbatim>\<open>None\<close>, after \<open>k + 1\<close> requests, and
  \<^verbatim>\<open>_download_thread\<close> leaves it out of its output: the output for the list headed by this
  URL is the output for the rest of the list. Any URL whose fetch returns \<^verbatim>\<open>None\<close> is left
  out in this way, and a URL whose fetch returns a text is paired with that text, in the
  order of the list; every URL of the output is one of the list.
\<close>

theorem download_thread_drops_failures:
  assumes "\<forall>i<k. \<exists>t. net (length log + i) url = Body t \<and>
                     contains ''Request Rate Threshold Exceeded'' t"
    and "net (length log + k) url = Transport_Error \<or>
         (\<exists>t. net (length log + k) url = Body t \<and>
              \<not> contains ''Request Rate Threshold Exceeded'' t \<and> contains ''AccessDenied'' t)"
  shows "download_one_threaded net url log = Some (None, log @ replicate (Suc k) url) \<and>
         download_thread net (url # urls) log =
           download_thread net urls (log @ replicate (Suc k) url) \<and>
         (\<forall>u us l l1. download_one_threaded net u l = Some (None, l1) \<longrightarrow>
            download_thread net (u # us) l = download_thread net us l1) \<and>
         (\<forall>u us l l1 text. download_one_threaded net u l = Some (Some text, l1) \<longrightarrow>
            download_thread net (u # us) l =
              map_option (\<lambda>(results, l2). ((text, u) # results, l2)) (download_thread net us l1)) \<and>
         (\<forall>us l results l1. download_thread net us l = Some (results, l1) \<longrightarrow>
            snd ` set results \<subseteq> set us)"
proof -
  from assms
  have one: "download_one_threaded net url log = Some (None, log @ replicate (Suc k) url)"
    by (rule download_one_threaded_fails)
  then have head: "download_thread net (url # urls) log =
      download_thread net urls (log @ replicate (Suc k) url)"
    by (simp add: download_thread_Cons)
  have dropped: "download_thread net (u # us) l = download_thread net us l1"
    if "download_one_threaded net u l = Some (None, l1)" for u us l l1
    using that by (simp add: download_thread_Cons)
  have paired: "download_thread net (u # us) l =
      map_option (\<lambda>(results, l2). ((page, u) # results, l2)) (download_thread net us l1)"
    if "download_one_threaded net u l = Some (Some page, l1)" for u us l l1 page
    using that by (simp add: download_thread_Cons split: option.splits)
  from one head dropped paired download_thread_urls show ?thesis
    by blast
qed

theorem download_thread_drops_failures_witness:
  "download_one_threaded fetch_net ''a'' [] = Some (None, [''a'', ''a'']) \<and>
   download_thread fetch_net [''a'', ''b'', ''c''] [] =
     Some ([(''ok'', ''c'')], [''a'', ''a'', ''b'', ''c''])"
proof -
  have r: "contains ''Request Rate Threshold Exceeded'' ''Request Rate Threshold Exceeded''"
    by code_simp
  have h1: "\<forall>i<1. \<exists>t. fetch_net (length ([] :: string list) + i) ''a'' = Body t \<and>
                     contains ''Request Rate Threshold Exceeded'' t"
    using r by (simp add: fetch_net_def)
  have h2: "fetch_net (length ([] :: string list) + 1) ''a'' = Transport_Error \<or>
         (\<exists>t. fetch_net (length ([] :: string list) + 1) ''a'' = Body t \<and>
              \<not> contains ''Request Rate Threshold Exceeded'' t \<and> contains ''AccessDenied'' t)"
    by (simp add: fetch_net_def)
  have rest: "download_thread fetch_net [''b'', ''c''] [''a'', ''a''] =
      Some ([(''ok'', ''c'')], [''a'', ''a'', ''b'', ''c''])"
    by code_simp
  from download_thread_drops_failures
         [where k = 1 and net = fetch_net and log = "[]" and url = "''a''" and urls = "[''b'', ''c'']",
          OF h1 h2] rest
  show ?thesis
    by (simp add: numeral_2_eq_2)
qed

section \<open>The form argument: claim C1\<close>






end
